theory Spec2Isabelle
  imports Main
begin

section \<open>The Hangman game component as a state machine\<close>

text \<open>
  The component \<open>HangmanGame\<close> keeps its state in React hooks and changes it in event
  handlers (\<open>onGuess\<close>, \<open>reset\<close>, \<open>nextWord\<close>, \<open>togglePause\<close>, \<open>toggleMute\<close>) and in
  two effects (the initialisation on mount and the win/loss evaluation). The model
  passes the state explicitly: a handler maps a state to the state it leaves behind, or
  to \<open>None\<close> when it returns before calling any setter. The win/loss effect runs
  after the render that a handler caused has been committed, and the status it sets is
  rendered after that: \<open>commit\<close> is the handler's own render, \<open>dispatch\<close> the state once
  the effect's status has been rendered as well.

  The hook \<open>scale\<close> and the reference \<open>containerRef\<close> hold layout data only (a ratio of
  viewport sizes); no handler or effect of the game reads them, and they are left out.
\<close>

subsection \<open>Constants\<close>

datatype GameStatus = Start | Playing | Won | Lost

definition WORDS :: "string list" where
  "WORDS = [''JAVASCRIPT'', ''REACT'', ''HANGMAN'', ''DEVELOPER'', ''PROGRAM'',
            ''COMPUTER'', ''ALGORITHM'', ''FUNCTION'', ''VARIABLE'', ''COMPILER'']"

definition MAX_WRONG :: int where
  "MAX_WRONG = 6"

subsection \<open>State\<close>

text \<open>
  \<open>guessed\<close> is a \<open>Set<string>\<close>: the keyboard adds one-character strings to it, but the
  type of \<open>onGuess\<close> accepts any string, and so does the model. \<open>wrong\<close> is a number that
  starts at 0 and is only ever incremented or set to 0. \<open>levelIndex\<close> is a number that
  is only ever assigned \<open>i >= 0 ? i : 0\<close> or a remainder \<open>% WORDS.length\<close> of a
  successor, so it is a natural number.
\<close>

record game =
  targetWord :: string
  guessed :: "string set"
  wrong :: int
  status :: GameStatus
  isPaused :: bool
  isMuted :: bool
  showSidebar :: bool
  levelIndex :: nat

text \<open>The values given to \<open>useState\<close>: what the first render sees.\<close>

definition initialState :: game where
  "initialState = \<lparr>targetWord = [], guessed = {}, wrong = 0, status = Start,
     isPaused = False, isMuted = False, showSidebar = False, levelIndex = 0\<rparr>"

subsection \<open>String and array primitives of the host language\<close>

text \<open>\<open>s.split("")\<close>: the one-character strings of \<open>s\<close>, in order.\<close>

definition split_chars :: "string \<Rightarrow> string list" where
  "split_chars s = map (\<lambda>c. [c]) s"

text \<open>\<open>xs.join(sep)\<close>: the elements of \<open>xs\<close> with \<open>sep\<close> between neighbours.\<close>

fun join :: "string \<Rightarrow> string list \<Rightarrow> string" where
  "join sep [] = []"
| "join sep [x] = x"
| "join sep (x # y # ys) = x @ sep @ join sep (y # ys)"

text \<open>\<open>s.includes(t)\<close>: \<open>t\<close> occurs in \<open>s\<close> as a contiguous substring.\<close>

fun str_includes :: "string \<Rightarrow> string \<Rightarrow> bool" where
  "str_includes [] t = (t = [])"
| "str_includes (c # cs) t = (take (length t) (c # cs) = t \<or> str_includes cs t)"

text \<open>\<open>xs.indexOf(x)\<close>: the first position of \<open>x\<close>, or \<open>-1\<close>.\<close>

fun indexOf :: "'a list \<Rightarrow> 'a \<Rightarrow> int" where
  "indexOf [] x = - 1"
| "indexOf (y # ys) x =
     (if y = x then 0 else (let i = indexOf ys x in if i < 0 then - 1 else i + 1))"

subsection \<open>Word selection\<close>

text \<open>
  \<open>pickWord(idx?)\<close>. The second argument stands for the value of
  \<open>Math.floor(Math.random() * WORDS.length)\<close>, which the source computes only when
  \<open>idx\<close> is absent.
\<close>

definition pickWord :: "nat option \<Rightarrow> nat \<Rightarrow> string" where
  "pickWord idx rnd =
     (case idx of
        Some i \<Rightarrow> WORDS ! (i mod length WORDS)
      | None \<Rightarrow> WORDS ! rnd)"

subsection \<open>Effects\<close>

text \<open>The initialisation effect, run once on mount with the random draw \<open>rnd\<close>.\<close>

definition mountEffect :: "nat \<Rightarrow> game \<Rightarrow> game" where
  "mountEffect rnd s =
     (let initial = pickWord None rnd;
          i = indexOf WORDS initial
      in s\<lparr>targetWord := initial,
            levelIndex := (if i \<ge> 0 then nat i else 0),
            guessed := {},
            wrong := 0,
            status := Playing\<rparr>)"

text \<open>
  The win/loss effect: \<open>None\<close> when it returns without calling \<open>setStatus\<close>, otherwise
  the status it sets.
\<close>

definition hasWon :: "game \<Rightarrow> bool" where
  "hasWon s = list_all (\<lambda>ch. ch \<in> guessed s) (split_chars (targetWord s))"

definition winLossEffect :: "game \<Rightarrow> GameStatus option" where
  "winLossEffect s =
     (if targetWord s = [] \<or> status s \<noteq> Playing then None
      else if hasWon s then Some Won
      else if wrong s \<ge> MAX_WRONG then Some Lost
      else None)"

text \<open>
  \<open>status\<close> is a dependency of the effect, so a status it sets renders the component
  again and runs it again: the effect is repeated until it sets nothing.
\<close>

function settle :: "game \<Rightarrow> game" where
  "settle s =
     (case winLossEffect s of
        None \<Rightarrow> s
      | Some st \<Rightarrow> settle (s\<lparr>status := st\<rparr>))"
  by pat_completeness auto
termination
  by (relation "measure (\<lambda>s. if status s = Playing then 1 else 0)")
     (auto simp: winLossEffect_def split: if_splits)

declare settle.simps [simp del]

subsection \<open>Event handlers\<close>

definition onGuess :: "string \<Rightarrow> game \<Rightarrow> game option" where
  "onGuess letter s =
     (if status s \<noteq> Playing \<or> isPaused s then None
      else if letter \<in> guessed s then None
      else
        (let next = insert letter (guessed s);
             s1 = s\<lparr>guessed := next\<rparr>
         in if \<not> str_includes (targetWord s) letter
            then Some (s1\<lparr>wrong := wrong s1 + 1\<rparr>)
            else Some s1))"

definition reset :: "game \<Rightarrow> game" where
  "reset s = s\<lparr>guessed := {}, wrong := 0, status := Playing,
               isPaused := False, showSidebar := False\<rparr>"

text \<open>
  \<open>nextWord\<close> passes an index to \<open>pickWord\<close>, which then draws no random number: its
  second argument is not read.
\<close>

definition nextWord :: "game \<Rightarrow> game" where
  "nextWord s =
     (let nextIndex = (levelIndex s + 1) mod length WORDS
      in s\<lparr>levelIndex := nextIndex,
            targetWord := pickWord (Some nextIndex) 0,
            guessed := {}, wrong := 0, status := Playing,
            isPaused := False, showSidebar := False\<rparr>)"

definition togglePause :: "game \<Rightarrow> game" where
  "togglePause s =
     (let next = \<not> isPaused s
      in s\<lparr>showSidebar := next, isPaused := next\<rparr>)"

definition toggleMute :: "game \<Rightarrow> game" where
  "toggleMute s = s\<lparr>isMuted := \<not> isMuted s\<rparr>"

definition display :: "game \<Rightarrow> string" where
  "display s =
     (if targetWord s = [] then []
      else join '' ''
             (map (\<lambda>ch. if ch \<in> guessed s then ch else ''_'')
                  (split_chars (targetWord s))))"

subsection \<open>Events and runs\<close>

datatype event = Guess string | Reset | NextWord | TogglePause | ToggleMute

fun handle :: "event \<Rightarrow> game \<Rightarrow> game option" where
  "handle (Guess letter) s = onGuess letter s"
| "handle Reset s = Some (reset s)"
| "handle NextWord s = Some (nextWord s)"
| "handle TogglePause s = Some (togglePause s)"
| "handle ToggleMute s = Some (toggleMute s)"

text \<open>
  The render that a handler leaves behind. Its setters are applied in the click's own
  render: \<open>guessed\<close> and \<open>wrong\<close> are up to date there, while \<open>status\<close> is still the
  one the handler saw, because the win/loss effect has not yet run on this render. The
  keys are enabled by the same \<open>status\<close>, so an event that arrives before the effect's
  status is rendered is handled on this state.
\<close>

definition commit :: "event \<Rightarrow> game \<Rightarrow> game" where
  "commit ev s = (case handle ev s of None \<Rightarrow> s | Some s' \<Rightarrow> s')"

text \<open>
  An event whose effect is evaluated and rendered before the next event arrives: the
  handler, then the effect. A handler that returned early set no state, so nothing is
  rendered and no effect runs. After the other handlers the effect is run whether or
  not one of its dependencies changed; lemma \<open>settle_stable\<close> shows that this makes no
  difference in a state the effect has already evaluated. \<open>run\<close> composes such events:
  it reaches the states in which the component rests when every event is followed by
  the effect's render before the next one is handled. The states in between are those
  of \<open>commit\<close>.
\<close>

definition dispatch :: "event \<Rightarrow> game \<Rightarrow> game" where
  "dispatch ev s = (case handle ev s of None \<Rightarrow> s | Some s' \<Rightarrow> settle s')"

fun run :: "game \<Rightarrow> event list \<Rightarrow> game" where
  "run s [] = s"
| "run s (ev # evs) = run (dispatch ev s) evs"

text \<open>
  Mounting: the effects run on the first render, where the win/loss effect finds an
  empty \<open>targetWord\<close> and returns; the state set by the initialisation is then
  rendered and evaluated.
\<close>

definition mount :: "nat \<Rightarrow> game" where
  "mount rnd = settle (mountEffect rnd initialState)"

subsection \<open>The round invariant\<close>

text \<open>
  What holds of the state once the effect's status has been rendered: the word is
  the one at the level index, the count of wrong guesses is within its bound, and the
  status agrees with what the win/loss effect would decide.
\<close>

definition round_inv :: "game \<Rightarrow> bool" where
  "round_inv s \<longleftrightarrow>
     levelIndex s < length WORDS \<and>
     targetWord s = WORDS ! levelIndex s \<and>
     0 \<le> wrong s \<and> wrong s \<le> MAX_WRONG \<and>
     status s \<noteq> Start \<and>
     (status s = Playing \<longrightarrow> \<not> hasWon s \<and> wrong s < MAX_WRONG) \<and>
     (status s = Won \<longrightarrow> hasWon s) \<and>
     (status s = Lost \<longrightarrow> \<not> hasWon s \<and> MAX_WRONG \<le> wrong s)"

section \<open>Properties of the primitives\<close>

lemma length_WORDS: "length WORDS = 10"
  by (simp add: WORDS_def)

lemma distinct_WORDS: "distinct WORDS"
  by (simp add: WORDS_def)

lemma WORDS_nonempty: "i < length WORDS \<Longrightarrow> WORDS ! i \<noteq> []"
proof -
  have "\<forall>w \<in> set WORDS. w \<noteq> []" by (simp add: WORDS_def)
  then show "i < length WORDS \<Longrightarrow> WORDS ! i \<noteq> []" by (meson nth_mem)
qed

lemma indexOf_nonneg_iff: "0 \<le> indexOf xs x \<longleftrightarrow> x \<in> set xs"
  by (induction xs) (auto simp: Let_def)

lemma indexOf_nth: "distinct xs \<Longrightarrow> i < length xs \<Longrightarrow> indexOf xs (xs ! i) = int i"
proof (induction xs arbitrary: i)
  case Nil
  then show ?case by simp
next
  case (Cons y ys)
  show ?case
  proof (cases i)
    case 0
    then show ?thesis by simp
  next
    case (Suc j)
    with Cons.prems have j: "j < length ys" and d: "distinct ys" and ne: "y \<noteq> ys ! j"
      by auto
    from Cons.IH [OF d j] Suc ne show ?thesis by (simp add: Let_def)
  qed
qed

lemma str_includes_iff: "str_includes w t \<longleftrightarrow> (\<exists>ps ss. w = ps @ t @ ss)"
proof (induction w)
  case Nil
  then show ?case by auto
next
  case (Cons c cs)
  have pre: "take (length t) (c # cs) = t \<longleftrightarrow> (\<exists>ss. c # cs = t @ ss)"
    by (metis append_eq_conv_conj append_take_drop_id)
  have split: "(\<exists>ps ss. c # cs = ps @ t @ ss) \<longleftrightarrow>
                 (\<exists>ss. c # cs = t @ ss) \<or> (\<exists>ps ss. cs = ps @ t @ ss)"
  proof
    assume "\<exists>ps ss. c # cs = ps @ t @ ss"
    then obtain ps ss where e: "c # cs = ps @ t @ ss" by blast
    show "(\<exists>ss. c # cs = t @ ss) \<or> (\<exists>ps ss. cs = ps @ t @ ss)"
    proof (cases ps)
      case Nil
      with e show ?thesis by auto
    next
      case (Cons p ps')
      with e have "cs = ps' @ t @ ss" by simp
      then show ?thesis by blast
    qed
  next
    assume "(\<exists>ss. c # cs = t @ ss) \<or> (\<exists>ps ss. cs = ps @ t @ ss)"
    then show "\<exists>ps ss. c # cs = ps @ t @ ss"
    proof
      assume "\<exists>ss. c # cs = t @ ss"
      then obtain ss where "c # cs = [] @ t @ ss" by auto
      then show ?thesis by blast
    next
      assume "\<exists>ps ss. cs = ps @ t @ ss"
      then obtain ps ss where "c # cs = (c # ps) @ t @ ss" by auto
      then show ?thesis by blast
    qed
  qed
  show ?case using Cons.IH pre split by simp
qed

lemma str_includes_letter: "str_includes w [c] \<longleftrightarrow> c \<in> set w"
  by (induction w) auto

lemma hasWon_iff: "hasWon s \<longleftrightarrow> (\<forall>c \<in> set (targetWord s). [c] \<in> guessed s)"
  by (simp add: hasWon_def split_chars_def list_all_iff)

lemma settle_eq:
  "settle s = (case winLossEffect s of None \<Rightarrow> s | Some st \<Rightarrow> s\<lparr>status := st\<rparr>)"
proof (cases "winLossEffect s")
  case None
  then show ?thesis by (simp add: settle.simps)
next
  case (Some st)
  then have "st \<noteq> Playing"
    by (auto simp: winLossEffect_def split: if_splits)
  then have "winLossEffect (s\<lparr>status := st\<rparr>) = None"
    by (simp add: winLossEffect_def)
  then have "settle (s\<lparr>status := st\<rparr>) = s\<lparr>status := st\<rparr>"
    by (simp add: settle.simps)
  with Some show ?thesis by (simp add: settle.simps [of s])
qed

lemma settle_fields [simp]:
  "targetWord (settle s) = targetWord s"
  "guessed (settle s) = guessed s"
  "wrong (settle s) = wrong s"
  "isPaused (settle s) = isPaused s"
  "isMuted (settle s) = isMuted s"
  "showSidebar (settle s) = showSidebar s"
  "levelIndex (settle s) = levelIndex s"
  by (simp_all add: settle_eq split: option.splits)

lemma hasWon_settle [simp]: "hasWon (settle s) = hasWon s"
  by (simp add: hasWon_def)

lemma status_settle:
  "status (settle s) =
     (if targetWord s = [] \<or> status s \<noteq> Playing then status s
      else if hasWon s then Won
      else if MAX_WRONG \<le> wrong s then Lost
      else Playing)"
  by (simp add: settle_eq winLossEffect_def)

lemma settle_stable: "round_inv s \<Longrightarrow> settle s = s"
  by (auto simp: settle_eq winLossEffect_def round_inv_def)

lemma settle_idem: "settle (settle s) = settle s"
  by (auto simp: settle_eq winLossEffect_def hasWon_def split: option.splits if_splits)

section \<open>The invariant holds in every reachable state\<close>

lemma mountEffect_index:
  assumes "rnd < length WORDS"
  shows "levelIndex (mountEffect rnd s) = rnd" "targetWord (mountEffect rnd s) = WORDS ! rnd"
  using assms indexOf_nth [OF distinct_WORDS assms]
  by (simp_all add: mountEffect_def pickWord_def Let_def)

lemma mountEffect_fields:
  "guessed (mountEffect rnd s) = {}" "wrong (mountEffect rnd s) = 0"
  "status (mountEffect rnd s) = Playing"
  by (simp_all add: mountEffect_def Let_def)

lemma not_hasWon_empty: "targetWord s \<noteq> [] \<Longrightarrow> guessed s = {} \<Longrightarrow> \<not> hasWon s"
  by (cases "targetWord s") (simp_all add: hasWon_def split_chars_def)

lemma round_inv_mount: "rnd < length WORDS \<Longrightarrow> round_inv (mount rnd)"
proof -
  assume r: "rnd < length WORDS"
  let ?m = "mountEffect rnd initialState"
  have ne: "targetWord ?m \<noteq> []"
    using r by (simp add: mountEffect_index WORDS_nonempty)
  then have nw: "\<not> hasWon ?m"
    by (rule not_hasWon_empty) (simp add: mountEffect_fields)
  have "winLossEffect ?m = None"
    using nw by (simp add: winLossEffect_def mountEffect_fields MAX_WRONG_def)
  then have "mount rnd = ?m"
    by (simp add: mount_def settle_eq)
  then show ?thesis
    using r nw by (simp add: round_inv_def mountEffect_index mountEffect_fields MAX_WRONG_def)
qed

lemma round_inv_settle:
  assumes "levelIndex s < length WORDS" "targetWord s = WORDS ! levelIndex s"
    "0 \<le> wrong s" "wrong s \<le> MAX_WRONG" "status s = Playing"
  shows "round_inv (settle s)"
proof -
  have "targetWord s \<noteq> []" using assms(1,2) by (simp add: WORDS_nonempty)
  then show ?thesis
    using assms by (simp add: round_inv_def status_settle)
qed

lemma hasWon_insert_wrong:
  "\<not> str_includes (targetWord s) letter \<Longrightarrow>
   hasWon (s\<lparr>guessed := insert letter (guessed s)\<rparr>) = hasWon s"
  by (auto simp: hasWon_iff str_includes_letter)

lemma round_inv_onGuess:
  assumes "round_inv s" "onGuess letter s = Some s'"
  shows "round_inv (settle s')"
proof -
  from assms(2) have p: "status s = Playing"
    by (auto simp: onGuess_def split: if_splits)
  with assms(1) have w: "wrong s < MAX_WRONG" "0 \<le> wrong s"
    and l: "levelIndex s < length WORDS" "targetWord s = WORDS ! levelIndex s"
    by (simp_all add: round_inv_def)
  from assms(2) p have f: "levelIndex s' = levelIndex s" "targetWord s' = targetWord s"
    "status s' = Playing" "wrong s' = wrong s \<or> wrong s' = wrong s + 1"
    by (auto simp: onGuess_def Let_def split: if_splits)
  show ?thesis
    by (rule round_inv_settle) (use w l f in auto)
qed

lemma round_inv_reset: "round_inv s \<Longrightarrow> round_inv (settle (reset s))"
  by (rule round_inv_settle) (simp_all add: reset_def round_inv_def MAX_WRONG_def)

lemma round_inv_nextWord: "round_inv (settle (nextWord s))"
  by (rule round_inv_settle)
     (simp_all add: nextWord_def Let_def pickWord_def MAX_WRONG_def length_WORDS)

lemma round_inv_frame:
  assumes "round_inv s" "targetWord s' = targetWord s" "guessed s' = guessed s"
    "wrong s' = wrong s" "status s' = status s" "levelIndex s' = levelIndex s"
  shows "round_inv s'"
proof -
  have "hasWon s' = hasWon s" using assms(2,3) by (simp add: hasWon_def)
  then show ?thesis using assms by (simp add: round_inv_def)
qed

lemma round_inv_togglePause: "round_inv s \<Longrightarrow> round_inv (togglePause s)"
  by (erule round_inv_frame) (simp_all add: togglePause_def Let_def)

lemma round_inv_toggleMute: "round_inv s \<Longrightarrow> round_inv (toggleMute s)"
  by (erule round_inv_frame) (simp_all add: toggleMute_def)

lemma round_inv_dispatch: "round_inv s \<Longrightarrow> round_inv (dispatch ev s)"
proof (cases ev)
  case (Guess letter)
  assume "round_inv s"
  then show ?thesis
    using Guess by (auto simp: dispatch_def round_inv_onGuess split: option.splits)
next
  case Reset
  assume "round_inv s"
  then show ?thesis using Reset by (simp add: dispatch_def round_inv_reset)
next
  case NextWord
  then show ?thesis by (simp add: dispatch_def round_inv_nextWord)
next
  case TogglePause
  assume "round_inv s"
  then have "round_inv (togglePause s)" by (rule round_inv_togglePause)
  then show ?thesis using TogglePause by (simp add: dispatch_def settle_stable)
next
  case ToggleMute
  assume "round_inv s"
  then have "round_inv (toggleMute s)" by (rule round_inv_toggleMute)
  then show ?thesis using ToggleMute by (simp add: dispatch_def settle_stable)
qed

lemma round_inv_run: "round_inv s \<Longrightarrow> round_inv (run s evs)"
  by (induction evs arbitrary: s) (simp_all add: round_inv_dispatch)

lemma round_inv_reachable: "rnd < length WORDS \<Longrightarrow> round_inv (run (mount rnd) evs)"
  by (simp add: round_inv_mount round_inv_run)

section \<open>Properties of the game\<close>

lemma dispatch_Guess_fresh:
  assumes "status s = Playing" "\<not> isPaused s" "L \<notin> guessed s"
  shows "dispatch (Guess L) s =
           settle (s\<lparr>guessed := insert L (guessed s),
                     wrong := (if str_includes (targetWord s) L then wrong s else wrong s + 1)\<rparr>)"
  using assms by (simp add: dispatch_def onGuess_def Let_def)

lemma dispatch_Guess_blocked:
  "status s \<noteq> Playing \<or> isPaused s \<or> L \<in> guessed s \<Longrightarrow> dispatch (Guess L) s = s"
  by (auto simp: dispatch_def onGuess_def)

lemma dispatch_Guess_guessed:
  "dispatch (Guess L) s = s \<or> L \<in> guessed (dispatch (Guess L) s)"
proof (cases "status s \<noteq> Playing \<or> isPaused s \<or> L \<in> guessed s")
  case True
  then show ?thesis by (simp add: dispatch_Guess_blocked)
next
  case False
  then show ?thesis by (simp add: dispatch_Guess_fresh)
qed

lemma status_dispatch_terminal:
  assumes "status s = Won \<or> status s = Lost" "ev \<noteq> Reset" "ev \<noteq> NextWord"
  shows "status (dispatch ev s) = status s"
proof (cases ev)
  case (Guess L)
  with assms(1) show ?thesis by (auto simp: dispatch_Guess_blocked)
next
  case TogglePause
  with assms(1) show ?thesis
    by (auto simp: dispatch_def status_settle togglePause_def Let_def)
next
  case ToggleMute
  with assms(1) show ?thesis
    by (auto simp: dispatch_def status_settle toggleMute_def)
qed (use assms in simp_all)

lemma status_dispatch_Reset: "status (dispatch Reset s) = Playing"
proof (cases "targetWord s = []")
  case True
  then show ?thesis by (simp add: dispatch_def status_settle reset_def)
next
  case False
  then have "\<not> hasWon (reset s)"
    by (intro not_hasWon_empty) (simp_all add: reset_def)
  then show ?thesis by (simp add: dispatch_def status_settle reset_def MAX_WRONG_def)
qed

lemma targetWord_nextWord:
  "targetWord (nextWord s) = WORDS ! ((levelIndex s + 1) mod length WORDS)"
  by (simp add: nextWord_def pickWord_def Let_def length_WORDS)

lemma status_dispatch_NextWord: "status (dispatch NextWord s) = Playing"
proof -
  have "targetWord (nextWord s) \<noteq> []"
    by (simp add: targetWord_nextWord WORDS_nonempty length_WORDS)
  moreover from this have "\<not> hasWon (nextWord s)"
    by (rule not_hasWon_empty) (simp add: nextWord_def Let_def)
  moreover have "wrong (nextWord s) = 0" "status (nextWord s) = Playing"
    by (simp_all add: nextWord_def Let_def)
  ultimately show ?thesis by (simp add: dispatch_def status_settle MAX_WRONG_def)
qed

lemma commit_Guess_fresh:
  assumes "status s = Playing" "\<not> isPaused s" "L \<notin> guessed s"
  shows "commit (Guess L) s =
           s\<lparr>guessed := insert L (guessed s),
             wrong := (if str_includes (targetWord s) L then wrong s else wrong s + 1)\<rparr>"
  using assms by (simp add: commit_def onGuess_def Let_def)






text \<open>
  Claim C2. In any state with a word that is \<open>Playing\<close> and not paused, whether or
  not the effect has evaluated it, guessing a letter that is not in the guessed set
  adds it to the set, adds exactly 1 to \<open>wrong\<close> if the word does not contain the letter
  and leaves \<open>wrong\<close> as it is otherwise; the handler's own render shows these with the
  status still \<open>Playing\<close>. The effect then sets the status by the win check first and
  the loss check second: a guess that completes the word gives \<open>Won\<close> even when
  \<open>wrong\<close> is 6 or more. Nothing else changes.
\<close>

theorem guess_new_letter:
  assumes "targetWord s \<noteq> []"
    and "status s = Playing" and "\<not> isPaused s" and "[c] \<notin> guessed s"
    and "s' = dispatch (Guess [c]) s"
  shows "guessed s' = insert [c] (guessed s) \<and>
         wrong s' = (if c \<in> set (targetWord s) then wrong s else wrong s + 1) \<and>
         status s' =
           (if \<forall>d \<in> set (targetWord s). [d] \<in> guessed s' then Won
            else if 6 \<le> wrong s' then Lost
            else Playing) \<and>
         targetWord s' = targetWord s \<and> levelIndex s' = levelIndex s \<and>
         isPaused s' = isPaused s \<and> isMuted s' = isMuted s \<and>
         showSidebar s' = showSidebar s \<and>
         guessed (commit (Guess [c]) s) = guessed s' \<and>
         wrong (commit (Guess [c]) s) = wrong s' \<and>
         status (commit (Guess [c]) s) = Playing"
proof -
  let ?u = "s\<lparr>guessed := insert [c] (guessed s),
               wrong := (if str_includes (targetWord s) [c] then wrong s else wrong s + 1)\<rparr>"
  have s': "s' = settle ?u"
    using assms(2-5) by (simp add: dispatch_Guess_fresh)
  have u: "commit (Guess [c]) s = ?u"
    using assms(2-4) by (rule commit_Guess_fresh)
  have "status s' =
           (if hasWon ?u then Won else if MAX_WRONG \<le> wrong ?u then Lost else Playing)"
    using assms(1,2) by (simp add: s' status_settle)
  then show ?thesis
    using assms(2) by (simp add: s' u hasWon_iff str_includes_letter MAX_WRONG_def)
qed

theorem guess_new_letter_witness:
  "targetWord (commit (Guess ''B'') (run (mount 1) [Guess ''R'', Guess ''E'', Guess ''A'', Guess ''C'', Guess ''Q'', Guess ''W'', Guess ''X'', Guess ''Y'', Guess ''Z''])) = ''REACT'' \<and>
   status (commit (Guess ''B'') (run (mount 1) [Guess ''R'', Guess ''E'', Guess ''A'', Guess ''C'', Guess ''Q'', Guess ''W'', Guess ''X'', Guess ''Y'', Guess ''Z''])) = Playing \<and>
   wrong (commit (Guess ''B'') (run (mount 1) [Guess ''R'', Guess ''E'', Guess ''A'', Guess ''C'', Guess ''Q'', Guess ''W'', Guess ''X'', Guess ''Y'', Guess ''Z''])) = 6 \<and>
   wrong (dispatch (Guess ''T'') (commit (Guess ''B'') (run (mount 1) [Guess ''R'', Guess ''E'', Guess ''A'', Guess ''C'', Guess ''Q'', Guess ''W'', Guess ''X'', Guess ''Y'', Guess ''Z'']))) = 6 \<and>
   status (dispatch (Guess ''T'') (commit (Guess ''B'') (run (mount 1) [Guess ''R'', Guess ''E'', Guess ''A'', Guess ''C'', Guess ''Q'', Guess ''W'', Guess ''X'', Guess ''Y'', Guess ''Z'']))) = Won"
proof -
  let ?evs = "[Guess ''R'', Guess ''E'', Guess ''A'', Guess ''C'', Guess ''Q'', Guess ''W'', Guess ''X'', Guess ''Y'', Guess ''Z'']"
  let ?s = "commit (Guess ''B'') (run (mount 1) ?evs)"
  have t: "targetWord ?s = ''REACT''" by code_simp
  then have n: "targetWord ?s \<noteq> []" by simp
  have p: "status ?s = Playing" by code_simp
  have q: "\<not> isPaused ?s" by code_simp
  have g: "''T'' \<notin> guessed ?s" by code_simp
  have w: "wrong ?s = 6" by code_simp
  have gs: "guessed ?s = {''B'', ''Z'', ''Y'', ''X'', ''W'', ''Q'', ''C'', ''A'', ''E'', ''R''}"
    by code_simp
  from guess_new_letter [OF n p q g refl] t w gs p show ?thesis by simp
qed







text \<open>
  Claim C5. From every state, \<open>nextWord\<close> sets \<open>levelIndex\<close> to
  \<open>(levelIndex + 1) mod length WORDS\<close>, sets \<open>targetWord\<close> to the word at that index, and
  leaves the round as \<open>reset\<close> does: \<open>wrong = 0\<close>, guessed set empty, status
  \<open>Playing\<close>, pause and sidebar cleared.
\<close>

theorem nextWord_advances_level:
  "levelIndex (dispatch NextWord s) = (levelIndex s + 1) mod length WORDS \<and>
   targetWord (dispatch NextWord s) = WORDS ! ((levelIndex s + 1) mod length WORDS) \<and>
   wrong (dispatch NextWord s) = 0 \<and> guessed (dispatch NextWord s) = {} \<and>
   status (dispatch NextWord s) = Playing \<and>
   \<not> isPaused (dispatch NextWord s) \<and> \<not> showSidebar (dispatch NextWord s) \<and>
   isMuted (dispatch NextWord s) = isMuted s \<and>
   wrong (dispatch NextWord s) = wrong (dispatch Reset s) \<and>
   guessed (dispatch NextWord s) = guessed (dispatch Reset s) \<and>
   status (dispatch NextWord s) = status (dispatch Reset s) \<and>
   isPaused (dispatch NextWord s) = isPaused (dispatch Reset s) \<and>
   showSidebar (dispatch NextWord s) = showSidebar (dispatch Reset s) \<and>
   isMuted (dispatch NextWord s) = isMuted (dispatch Reset s)"
proof -
  have n: "dispatch NextWord s = settle (nextWord s)" by (simp add: dispatch_def)
  have r: "dispatch Reset s = settle (reset s)" by (simp add: dispatch_def)
  have "levelIndex (nextWord s) = (levelIndex s + 1) mod length WORDS"
    "wrong (nextWord s) = 0" "guessed (nextWord s) = {}" "\<not> isPaused (nextWord s)"
    "\<not> showSidebar (nextWord s)" "isMuted (nextWord s) = isMuted s"
    by (simp_all add: nextWord_def Let_def)
  moreover have "wrong (reset s) = 0" "guessed (reset s) = {}" "\<not> isPaused (reset s)"
    "\<not> showSidebar (reset s)" "isMuted (reset s) = isMuted s"
    by (simp_all add: reset_def)
  moreover note targetWord_nextWord [of s] status_dispatch_NextWord [of s]
    status_dispatch_Reset [of s]
  ultimately show ?thesis by (simp add: n r del: One_nat_def)
qed

theorem nextWord_advances_level_witness:
  "levelIndex (mount 9) = 9 \<and>
   levelIndex (dispatch NextWord (mount 9)) = 0 \<and>
   targetWord (dispatch NextWord (mount 9)) = ''JAVASCRIPT''"
proof -
  have l: "levelIndex (mount 9) = 9" by code_simp
  have w: "WORDS ! 0 = ''JAVASCRIPT''" by (simp add: WORDS_def)
  from nextWord_advances_level [of "mount 9"] l w show ?thesis
    by (simp add: length_WORDS)
qed

text \<open>
  Claim C6. Guessing a letter that is already in the guessed set changes nothing in the
  state; hence guessing the same letter twice in a row gives the same state as guessing
  it once, with the same \<open>wrong\<close> and the same guessed set.
\<close>

theorem repeated_guess_is_noop:
  "(L \<in> guessed s \<longrightarrow> dispatch (Guess L) s = s) \<and>
   dispatch (Guess L) (dispatch (Guess L) s) = dispatch (Guess L) s"
proof -
  have "dispatch (Guess L) (dispatch (Guess L) s) = dispatch (Guess L) s"
    using dispatch_Guess_guessed [of L s]
    by (auto simp: dispatch_Guess_blocked)
  then show ?thesis by (simp add: dispatch_Guess_blocked)
qed

theorem repeated_guess_is_noop_witness:
  "''Q'' \<in> guessed (run (mount 1) [Guess ''R'', Guess ''Q'']) \<and>
   dispatch (Guess ''Q'') (run (mount 1) [Guess ''R'', Guess ''Q'']) =
     run (mount 1) [Guess ''R'', Guess ''Q'']"
proof -
  have g: "''Q'' \<in> guessed (run (mount 1) [Guess ''R'', Guess ''Q''])" by code_simp
  from repeated_guess_is_noop [of "''Q''" "run (mount 1) [Guess ''R'', Guess ''Q'']"] g
  show ?thesis by simp
qed

text \<open>
  Claim C7. While the pause flag is set, a guess of any letter, guessed before or not,
  leaves the whole state as it is.
\<close>

theorem paused_guess_is_noop:
  "isPaused s \<Longrightarrow> dispatch (Guess L) s = s"
  by (simp add: dispatch_Guess_blocked)

theorem paused_guess_is_noop_witness:
  "isPaused (run (mount 1) [Guess ''R'', TogglePause]) \<and>
   ''Q'' \<notin> guessed (run (mount 1) [Guess ''R'', TogglePause]) \<and>
   dispatch (Guess ''Q'') (run (mount 1) [Guess ''R'', TogglePause]) =
     run (mount 1) [Guess ''R'', TogglePause]"
proof -
  have p: "isPaused (run (mount 1) [Guess ''R'', TogglePause])" by code_simp
  have g: "''Q'' \<notin> guessed (run (mount 1) [Guess ''R'', TogglePause])" by code_simp
  from paused_guess_is_noop [OF p, of "''Q''"] p g show ?thesis by simp
qed

lemma status_run_terminal:
  assumes "status s = Won \<or> status s = Lost"
    and "\<forall>ev \<in> set evs. (\<exists>L. ev = Guess L) \<or> ev = TogglePause \<or> ev = ToggleMute"
  shows "status (run s evs) = status s"
  using assms
proof (induction evs arbitrary: s)
  case Nil
  then show ?case by simp
next
  case (Cons ev evs)
  from Cons.prems(2) have ev: "ev \<noteq> Reset" "ev \<noteq> NextWord" by auto
  have st: "status (dispatch ev s) = status s"
    using Cons.prems(1) ev by (rule status_dispatch_terminal)
  with Cons.prems have "status (run (dispatch ev s) evs) = status (dispatch ev s)"
    by (intro Cons.IH) auto
  with st show ?case by simp
qed

text \<open>
  Claim C8. From a state whose status is \<open>Won\<close> or \<open>Lost\<close>, no sequence of guesses,
  \<open>togglePause\<close> and \<open>toggleMute\<close> changes the status. An event that takes such a state
  to \<open>Playing\<close> is \<open>reset\<close> or \<open>nextWord\<close>, and both of these do.
\<close>

theorem won_lost_are_terminal:
  assumes "status s = Won \<or> status s = Lost"
    and "\<forall>ev \<in> set evs. (\<exists>L. ev = Guess L) \<or> ev = TogglePause \<or> ev = ToggleMute"
  shows "status (run s evs) = status s \<and>
         (\<forall>ev. status (dispatch ev s) = Playing \<longrightarrow> ev = Reset \<or> ev = NextWord) \<and>
         status (dispatch Reset s) = Playing \<and> status (dispatch NextWord s) = Playing"
proof -
  have "ev = Reset \<or> ev = NextWord" if p: "status (dispatch ev s) = Playing" for ev
  proof (rule ccontr)
    assume "\<not> (ev = Reset \<or> ev = NextWord)"
    then have "ev \<noteq> Reset" "ev \<noteq> NextWord" by auto
    from status_dispatch_terminal [OF assms(1) this] p assms(1) show False by auto
  qed
  then show ?thesis
    using status_run_terminal [OF assms]
    by (simp add: status_dispatch_Reset status_dispatch_NextWord)
qed

theorem won_lost_are_terminal_witness:
  "status (run (mount 1) [Guess ''R'', Guess ''E'', Guess ''A'', Guess ''C'', Guess ''T'']) = Won \<and>
   status (run (run (mount 1) [Guess ''R'', Guess ''E'', Guess ''A'', Guess ''C'', Guess ''T''])
             [Guess ''Q'', TogglePause, ToggleMute, Guess ''Z'', TogglePause, Guess ''X'']) = Won"
proof -
  let ?s = "run (mount 1) [Guess ''R'', Guess ''E'', Guess ''A'', Guess ''C'', Guess ''T'']"
  let ?evs = "[Guess ''Q'', TogglePause, ToggleMute, Guess ''Z'', TogglePause, Guess ''X'']"
  have w: "status ?s = Won" by code_simp
  then have t: "status ?s = Won \<or> status ?s = Lost" by simp
  have e: "\<forall>ev \<in> set ?evs. (\<exists>L. ev = Guess L) \<or> ev = TogglePause \<or> ev = ToggleMute"
    by simp
  from won_lost_are_terminal [OF t e] w show ?thesis by simp
qed

lemma join_letters_length:
  "w \<noteq> [] \<Longrightarrow> length (join [x] (map (\<lambda>c. [g c]) w)) = 2 * length w - 1"
  by (induction w rule: induct_list012) simp_all

lemma join_letters_even:
  "i < length w \<Longrightarrow> join [x] (map (\<lambda>c. [g c]) w) ! (2 * i) = g (w ! i)"
proof (induction w arbitrary: i rule: induct_list012)
  case 1
  then show ?case by simp
next
  case (2 c)
  then show ?case by simp
next
  case (3 c d ds)
  show ?case
  proof (cases i)
    case 0
    then show ?thesis by simp
  next
    case (Suc j)
    with "3.prems" have "j < length (d # ds)" by simp
    from "3.IH"(2) [OF this] Suc show ?thesis by simp
  qed
qed

lemma join_letters_odd:
  "Suc i < length w \<Longrightarrow> join [x] (map (\<lambda>c. [g c]) w) ! (2 * i + 1) = x"
proof (induction w arbitrary: i rule: induct_list012)
  case 1
  then show ?case by simp
next
  case (2 c)
  then show ?case by simp
next
  case (3 c d ds)
  show ?case
  proof (cases i)
    case 0
    then show ?thesis by simp
  next
    case (Suc j)
    with "3.prems" have "Suc j < length (d # ds)" by simp
    from "3.IH"(2) [OF this] Suc show ?thesis by simp
  qed
qed

lemma display_as_letters:
  "targetWord s \<noteq> [] \<Longrightarrow>
   display s = join '' '' (map (\<lambda>c. [if [c] \<in> guessed s then c else CHR ''_'']) (targetWord s))"
proof -
  have "(\<lambda>c. if [c] \<in> guessed s then [c] else ''_'') =
        (\<lambda>c. [if [c] \<in> guessed s then c else CHR ''_''])"
    by auto
  then show "targetWord s \<noteq> [] \<Longrightarrow> ?thesis"
    by (simp add: display_def split_chars_def comp_def)
qed

text \<open>
  Claim C9. For a non-empty \<open>targetWord\<close> of length \<open>n\<close> the displayed string has length
  \<open>2 n - 1\<close>; its character at the even position \<open>2 i\<close> is the \<open>i\<close>-th character of
  the word if that is in the guessed set and an underscore otherwise, and its character
  at every odd position is a single space.
\<close>

theorem display_shows_guessed_letters:
  assumes "targetWord s \<noteq> []"
  shows "length (display s) = 2 * length (targetWord s) - 1 \<and>
         (\<forall>i < length (targetWord s).
            display s ! (2 * i) =
              (if [targetWord s ! i] \<in> guessed s then targetWord s ! i else CHR ''_'')) \<and>
         (\<forall>i. i + 1 < length (targetWord s) \<longrightarrow> display s ! (2 * i + 1) = CHR '' '')"
  using assms
  by (simp add: display_as_letters join_letters_length join_letters_even join_letters_odd
        del: One_nat_def)

theorem display_shows_guessed_letters_witness:
  "targetWord (run (mount 1) [Guess ''R'', Guess ''W'', Guess ''T'']) \<noteq> [] \<and>
   display (run (mount 1) [Guess ''R'', Guess ''W'', Guess ''T'']) = ''R _ _ _ T'' \<and>
   length (display (run (mount 1) [Guess ''R'', Guess ''W'', Guess ''T''])) = 9"
proof -
  let ?s = "run (mount 1) [Guess ''R'', Guess ''W'', Guess ''T'']"
  have t: "targetWord ?s = ''REACT''" by code_simp
  then have n: "targetWord ?s \<noteq> []" by simp
  have d: "display ?s = ''R _ _ _ T''" by code_simp
  from display_shows_guessed_letters [OF n] t d show ?thesis by simp
qed

text \<open>
  Claim C10. Mounting with the draw \<open>rnd\<close> sets \<open>levelIndex\<close> to \<open>rnd\<close> and
  \<open>targetWord\<close> to the word at \<open>rnd\<close>. In every reachable state \<open>levelIndex\<close> is below the
  length of the word list and \<open>targetWord\<close> is the word at \<open>levelIndex\<close>, and every event
  (guess, reset, nextWord, togglePause, toggleMute) keeps that correspondence.
\<close>

theorem targetWord_is_word_at_levelIndex:
  assumes "rnd < length WORDS" and "s = run (mount rnd) evs"
  shows "levelIndex (mount rnd) = rnd \<and> targetWord (mount rnd) = WORDS ! rnd \<and>
         levelIndex s < length WORDS \<and> targetWord s = WORDS ! levelIndex s \<and>
         (\<forall>t ev. levelIndex t < length WORDS \<and> targetWord t = WORDS ! levelIndex t \<longrightarrow>
            levelIndex (dispatch ev t) < length WORDS \<and>
            targetWord (dispatch ev t) = WORDS ! levelIndex (dispatch ev t))"
proof -
  have m: "levelIndex (mount rnd) = rnd \<and> targetWord (mount rnd) = WORDS ! rnd"
    using assms(1) by (simp add: mount_def mountEffect_index)
  have inv: "round_inv s" using assms by (simp add: round_inv_reachable)
  have step: "levelIndex (dispatch ev t) < length WORDS \<and>
              targetWord (dispatch ev t) = WORDS ! levelIndex (dispatch ev t)"
    if "levelIndex t < length WORDS" "targetWord t = WORDS ! levelIndex t" for t ev
  proof (cases ev)
    case (Guess L)
    show ?thesis
    proof (cases "status t \<noteq> Playing \<or> isPaused t \<or> L \<in> guessed t")
      case True
      then show ?thesis using Guess that by (simp add: dispatch_Guess_blocked)
    next
      case False
      then show ?thesis using Guess that by (simp add: dispatch_Guess_fresh)
    qed
  next
    case Reset
    then show ?thesis using that by (simp add: dispatch_def reset_def)
  next
    case NextWord
    then show ?thesis
      by (simp add: dispatch_def targetWord_nextWord length_WORDS)
         (simp add: nextWord_def Let_def length_WORDS)
  next
    case TogglePause
    then show ?thesis using that by (simp add: dispatch_def togglePause_def Let_def)
  next
    case ToggleMute
    then show ?thesis using that by (simp add: dispatch_def toggleMute_def)
  qed
  from m inv step show ?thesis by (simp add: round_inv_def)
qed

theorem targetWord_is_word_at_levelIndex_witness:
  "7 < length WORDS \<and>
   levelIndex (run (mount 7) [Guess ''F'', NextWord, Reset, NextWord, TogglePause, NextWord]) = 0 \<and>
   targetWord (run (mount 7) [Guess ''F'', NextWord, Reset, NextWord, TogglePause, NextWord]) = ''JAVASCRIPT''"
proof -
  let ?evs = "[Guess ''F'', NextWord, Reset, NextWord, TogglePause, NextWord]"
  have h: "7 < length WORDS" by (simp add: length_WORDS)
  have l: "levelIndex (run (mount 7) ?evs) = 0" by code_simp
  have w: "WORDS ! 0 = ''JAVASCRIPT''" by (simp add: WORDS_def)
  from targetWord_is_word_at_levelIndex [OF h refl, of ?evs] l w h show ?thesis by simp
qed

end
